theory Spec2Isabelle
  imports Main "HOL-Library.Sublist"
begin

section \<open>Data model\<close>

text \<open>
  The handler value of \<^verbatim>\<open>git-http.go\<close>: the root directory, the path of the git
  binary, the two access flags and the event handler. \<open>EventHandler\<close> records whether a
  handler function is installed (the Go field is a function value or nil); the events it
  is called with are collected in the state that \<open>serviceRpc\<close> acts on.
\<close>

record GitHttp =
  ProjectRoot :: string
  GitBinPath :: string
  UploadPack :: bool
  ReceivePack :: bool
  EventHandler :: bool

text \<open>The event types \<^verbatim>\<open>TAG = iota + 1\<close>, \<^verbatim>\<open>PUSH\<close>, \<^verbatim>\<open>FETCH\<close> and the event struct;
  a field the Go code leaves unset holds the empty string.\<close>

datatype EventType = TAG | PUSH | FETCH

record Event =
  Type :: EventType
  Commit :: string
  Dir :: string
  Tag :: string
  Last :: string
  Branch :: string

text \<open>The shorthand constructor \<^verbatim>\<open>New\<close>; it installs no event handler.\<close>

definition New :: "string \<Rightarrow> GitHttp" where
  "New root = \<lparr>ProjectRoot = root, GitBinPath = ''/usr/bin/git'',
                UploadPack = True, ReceivePack = True, EventHandler = False\<rparr>"

text \<open>The parts of an \<^verbatim>\<open>http.Request\<close> that the handlers read: method, URL path,
  protocol, the two headers, and the body bytes.\<close>

record Request =
  req_Method :: string
  req_Path :: string
  req_Proto :: string
  req_ContentType :: string
  req_ContentEncoding :: string
  req_Body :: string

datatype handler =
    H_serviceRpc | H_getInfoRefs | H_getTextFile | H_getInfoPacks
  | H_getLooseObject | H_getPackFile | H_getIdxFile

record Service =
  Method :: string
  Handler :: handler
  Rpc :: string



text \<open>Errors and panics are values. \<open>Stat\<close> has three outcomes because \<open>getGitDir\<close>
  tests only \<^verbatim>\<open>os.IsNotExist\<close>.\<close>

datatype error = ErrNotExist | ErrGetwd | ErrReader

datatype panic = SliceBoundsOutOfRange | NilPipe

datatype stat_result = Stat_ok | Stat_not_exist | Stat_other_error

text \<open>The operating system as the code sees it: the working directory, \<^verbatim>\<open>os.Stat\<close>,
  and the standard output of a command run in a directory (binary, directory,
  arguments), which is what \<^verbatim>\<open>exec.Command(...).Output()\<close> returns.\<close>

record os_env =
  env_Getwd :: "error + string"
  env_Stat :: "string \<Rightarrow> stat_result"
  env_Output :: "string \<Rightarrow> string \<Rightarrow> string list \<Rightarrow> string"

section \<open>Packet-line framing\<close>

definition hex_digits :: string where
  "hex_digits = ''0123456789abcdef''"

text \<open>\<^verbatim>\<open>strconv.FormatInt(n, 16)\<close> for the non-negative \<open>n\<close> that \<open>packetWrite\<close>
  passes: lowercase digits, no leading zeros. The length of a Go string is far below
  the bound of \<^verbatim>\<open>int64\<close>, so \<open>len(str)+4\<close> does not wrap and is a natural number here.\<close>

function FormatInt16 :: "nat \<Rightarrow> string" where
  "FormatInt16 n =
     (if n < 16 then [hex_digits ! n]
      else FormatInt16 (n div 16) @ [hex_digits ! (n mod 16)])"
  by pat_completeness auto
termination
  by (relation "measure id") auto

declare FormatInt16.simps [simp del]

definition packetFlush :: string where
  "packetFlush = ''0000''"

definition packetWrite :: "string \<Rightarrow> string" where
  "packetWrite str =
     (let s = FormatInt16 (length str + 4);
          s' = (if length s mod 4 \<noteq> 0
                then replicate (4 - length s mod 4) (CHR ''0'') @ s else s)
      in s' @ str)"

text \<open>The reader's side of the framing (\<^verbatim>\<open>decodeLength\<close> in the specification), which
  the program itself does not contain: the value of a string of lowercase hexadecimal
  digits, and the length prefix of a packet as the value of its first four characters.\<close>

definition hex_value :: "char \<Rightarrow> nat option" where
  "hex_value c = map_of (zip hex_digits [0..<16]) c"

fun parse_hex :: "nat \<Rightarrow> string \<Rightarrow> nat option" where
  "parse_hex acc [] = Some acc"
| "parse_hex acc (c # cs) =
     (case hex_value c of None \<Rightarrow> None | Some d \<Rightarrow> parse_hex (16 * acc + d) cs)"

definition decodeLength :: "string \<Rightarrow> nat option" where
  "decodeLength pkt = (if length pkt < 4 then None else parse_hex 0 (take 4 pkt))"

section \<open>Regular expressions\<close>

text \<open>
  The patterns of the program, as syntax trees, and the matching of Go's
  \<^verbatim>\<open>regexp\<close> package on them: the match starts as early as possible and, among the
  matches that start there, is the one a backtracking search finds first. No pattern
  of the program sets a flag, so \<open>Bol\<close> (\<^verbatim>\<open>^\<close>) holds only at the start of the text,
  \<open>Eol\<close> (\<^verbatim>\<open>$\<close>) only at its end, and \<^verbatim>\<open>.\<close> is every character but the newline.
  A class is a list of ranges, negated or not. \<open>Star True\<close> is the greedy \<^verbatim>\<open>*\<close>,
  \<open>Star False\<close> the lazy \<^verbatim>\<open>*?\<close>; \<open>Rep n\<close> is \<^verbatim>\<open>{n}\<close>; \<open>Grp i\<close> is the \<open>i\<close>-th capturing
  group. Strings are byte lists; every literal of the patterns is ASCII, so matching
  bytes and matching UTF-8 runes select the same substrings.
\<close>

datatype regex =
    Lit string
  | Cls bool "(char \<times> char) list"
  | Seq regex regex
  | Alt regex regex
  | Star bool regex
  | Rep nat regex
  | Grp nat regex
  | Bol
  | Eol

text \<open>A matcher state: the text still to be read and the groups captured so far,
  most recent first.\<close>

type_synonym mstate = "string \<times> (nat \<times> string) list"

definition in_range :: "char \<Rightarrow> char \<times> char \<Rightarrow> bool" where
  "in_range c r = ((of_char (fst r) :: nat) \<le> of_char c \<and> (of_char c :: nat) \<le> of_char (snd r))"

definition in_class :: "bool \<Rightarrow> (char \<times> char) list \<Rightarrow> char \<Rightarrow> bool" where
  "in_class neg rs c = (list_ex (in_range c) rs \<noteq> neg)"

text \<open>
  \<open>ms re n st\<close> lists the states in which \<open>re\<close> can end when started in \<open>st\<close>, in
  the order in which a backtracking search reaches them; \<open>n\<close> is the length of the
  whole text. An iteration of a star must consume a character, so a star started with
  \<open>k\<close> characters left iterates at most \<open>k\<close> times: the counter of \<open>star_iter\<close> never
  cuts a match short.
\<close>

primrec star_iter :: "bool \<Rightarrow> (mstate \<Rightarrow> mstate list) \<Rightarrow> nat \<Rightarrow> mstate \<Rightarrow> mstate list" where
  "star_iter g f 0 st = [st]"
| "star_iter g f (Suc k) st =
     (let more = concat (map (star_iter g f k)
                   (filter (\<lambda>st'. length (fst st') < length (fst st)) (f st)))
      in if g then more @ [st] else st # more)"

primrec rep_iter :: "(mstate \<Rightarrow> mstate list) \<Rightarrow> nat \<Rightarrow> mstate \<Rightarrow> mstate list" where
  "rep_iter f 0 st = [st]"
| "rep_iter f (Suc k) st = concat (map (rep_iter f k) (f st))"

primrec ms :: "regex \<Rightarrow> nat \<Rightarrow> mstate \<Rightarrow> mstate list" where
  "ms (Lit l) n st = (if prefix l (fst st) then [(drop (length l) (fst st), snd st)] else [])"
| "ms (Cls neg rs) n st =
     (case fst st of [] \<Rightarrow> [] | x # xs \<Rightarrow> if in_class neg rs x then [(xs, snd st)] else [])"
| "ms (Seq a b) n st = concat (map (ms b n) (ms a n st))"
| "ms (Alt a b) n st = ms a n st @ ms b n st"
| "ms (Star g a) n st = star_iter g (ms a n) (length (fst st)) st"
| "ms (Rep k a) n st = rep_iter (ms a n) k st"
| "ms (Grp i a) n st =
     map (\<lambda>st'. (fst st', (i, take (length (fst st) - length (fst st')) (fst st)) # snd st'))
         (ms a n st)"
| "ms Bol n st = (if length (fst st) = n then [st] else [])"
| "ms Eol n st = (if fst st = [] then [st] else [])"

text \<open>The leftmost match at or after the current position: the text from the start
  of the match on, and the state at its end.\<close>

fun search :: "regex \<Rightarrow> nat \<Rightarrow> string \<Rightarrow> (string \<times> mstate) option" where
  "search re n [] = (case ms re n ([], []) of st # _ \<Rightarrow> Some ([], st) | [] \<Rightarrow> None)"
| "search re n (x # xs) =
     (case ms re n (x # xs, []) of st # _ \<Rightarrow> Some (x # xs, st) | [] \<Rightarrow> search re n xs)"

text \<open>The slice \<open>m\<close> of a match: \<open>m ! 0\<close> is the matched text, \<open>m ! i\<close> the text of
  group \<open>i\<close>, empty when the group took no part in the match.\<close>

definition submatches :: "nat \<Rightarrow> string \<times> mstate \<Rightarrow> string list" where
  "submatches ng m =
     take (length (fst m) - length (fst (snd m))) (fst m) #
     map (\<lambda>i. case map_of (snd (snd m)) i of None \<Rightarrow> [] | Some t \<Rightarrow> t) [1..<Suc ng]"

text \<open>
  The loop of \<^verbatim>\<open>FindAllStringSubmatch(s, -1)\<close>: search from the end of the previous
  match; after an empty match step one character on, and drop an empty match that
  starts where the previous match ended (\<open>prev\<close>, as the number of characters left
  there). The patterns of this program match no empty string, so for them only the
  first branch is taken.
\<close>

function all_matches :: "regex \<Rightarrow> nat \<Rightarrow> string \<Rightarrow> nat option \<Rightarrow> (string \<times> mstate) list" where
  "all_matches re n s prev =
     (case search re n s of
        None \<Rightarrow> []
      | Some m \<Rightarrow>
          if length (fst (snd m)) < length s
          then m # all_matches re n (fst (snd m)) (Some (length (fst (snd m))))
          else (let acc = (if Some (length (fst m)) = prev then [] else [m])
                in case s of
                     [] \<Rightarrow> acc
                   | _ # xs \<Rightarrow> acc @ all_matches re n xs (Some (length (fst (snd m))))))"
  by pat_completeness auto
termination
  by (relation "measure (\<lambda>(re, n, s, prev). length s)") auto

declare all_matches.simps [simp del]

definition FindStringSubmatch :: "regex \<Rightarrow> nat \<Rightarrow> string \<Rightarrow> string list option" where
  "FindStringSubmatch re ng s = map_option (submatches ng) (search re (length s) s)"

definition FindAllStringSubmatch :: "regex \<Rightarrow> nat \<Rightarrow> string \<Rightarrow> string list list" where
  "FindAllStringSubmatch re ng s = map (submatches ng) (all_matches re (length s) s None)"

text \<open>The classes of the patterns: \<^verbatim>\<open>[0-9a-fA-F]\<close>, \<^verbatim>\<open>[0-9a-f]\<close>, \<^verbatim>\<open>.\<close>, \<^verbatim>\<open>[^/]\<close> and
  \<^verbatim>\<open>\S\<close> (Go's \<^verbatim>\<open>\s\<close> is tab, newline, form feed, carriage return and space).\<close>

definition hex_ranges :: "(char \<times> char) list" where
  "hex_ranges = [(CHR ''0'', CHR ''9''), (CHR ''a'', CHR ''f''), (CHR ''A'', CHR ''F'')]"

definition space_ranges :: "(char \<times> char) list" where
  "space_ranges = [(CHR 0x09, CHR 0x0A), (CHR 0x0C, CHR 0x0D), (CHR '' '', CHR '' '')]"

definition hex :: regex where
  "hex = Cls False hex_ranges"

definition lower_hex :: regex where
  "lower_hex = Cls False [(CHR ''0'', CHR ''9''), (CHR ''a'', CHR ''f'')]"

definition any_char :: regex where
  "any_char = Cls True [(CHR 0x0A, CHR 0x0A)]"

definition not_slash :: regex where
  "not_slash = Cls True [(CHR ''/'', CHR ''/'')]"

definition non_space :: regex where
  "non_space = Cls True space_ranges"

text \<open>\<^verbatim>\<open>([0-9a-fA-F]{40}) ([0-9a-fA-F]{40}) refs\/(heads|tags)\/(.*?)( |00|\u0000)|^(0000)$\<close>\<close>

definition ref_update_re :: regex where
  "ref_update_re =
     Seq (Grp 1 (Rep 40 hex)) (Seq (Lit '' '') (Seq (Grp 2 (Rep 40 hex))
       (Seq (Lit '' refs/'') (Seq (Grp 3 (Alt (Lit ''heads'') (Lit ''tags'')))
       (Seq (Lit ''/'') (Seq (Grp 4 (Star False any_char))
       (Grp 5 (Alt (Lit '' '') (Alt (Lit ''00'') (Lit [CHR 0x00]))))))))))"

definition flush_re :: regex where
  "flush_re = Seq Bol (Seq (Grp 6 (Lit ''0000'')) Eol)"

definition receivePackRegex :: regex where
  "receivePackRegex = Alt ref_update_re flush_re"

text \<open>\<^verbatim>\<open>^\S+ ([0-9a-fA-F]{40})\<close>\<close>

definition uploadPackRegex :: regex where
  "uploadPackRegex =
     Seq Bol (Seq (Seq non_space (Star True non_space))
       (Seq (Lit '' '') (Grp 1 (Rep 40 hex))))"

section \<open>Event extraction\<close>

text \<open>
  The events that \<open>serviceRpc\<close> of \<^verbatim>\<open>git-http.go\<close> publishes for a request body, in
  the order of its calls of \<^verbatim>\<open>g.event\<close>: one per match of the pattern of the rpc.
\<close>

definition fetch_event :: "string \<Rightarrow> string list \<Rightarrow> Event" where
  "fetch_event dir m =
     \<lparr>Type = FETCH, Commit = m ! 1, Dir = dir, Tag = [], Last = [], Branch = []\<rparr>"

definition push_event :: "string \<Rightarrow> string list \<Rightarrow> Event" where
  "push_event dir m =
     (if m ! 3 = ''heads''
      then \<lparr>Type = PUSH, Commit = m ! 2, Dir = dir, Tag = [], Last = m ! 1, Branch = m ! 4\<rparr>
      else \<lparr>Type = TAG, Commit = m ! 2, Dir = dir, Tag = m ! 4, Last = m ! 1, Branch = []\<rparr>)"

definition rpc_events :: "string \<Rightarrow> string \<Rightarrow> string \<Rightarrow> Event list" where
  "rpc_events rpc dir input =
     (if rpc = ''upload-pack''
      then map (fetch_event dir) (FindAllStringSubmatch uploadPackRegex 1 input)
      else if rpc = ''receive-pack''
      then map (push_event dir) (FindAllStringSubmatch receivePackRegex 6 input)
      else [])"

section \<open>Repository resolution\<close>

text \<open>
  Go's \<^verbatim>\<open>path.Clean\<close> and \<^verbatim>\<open>path.Join\<close>, which \<open>getGitDir\<close> calls. \<open>Clean\<close> works on
  the elements between slashes: an empty element and \<^verbatim>\<open>.\<close> are dropped; \<^verbatim>\<open>..\<close> removes
  the element before it, is dropped at the root of a rooted path, and is kept at the
  start of a relative one. \<open>Join\<close> skips leading empty arguments, joins the rest with
  slashes and cleans the result.
\<close>

fun split_elems :: "string \<Rightarrow> string \<Rightarrow> string list" where
  "split_elems cur [] = (if cur = [] then [] else [cur])"
| "split_elems cur (c # cs) =
     (if c = CHR ''/''
      then (if cur = [] then [] else [cur]) @ split_elems [] cs
      else split_elems (cur @ [c]) cs)"

definition path_elems :: "string \<Rightarrow> string list" where
  "path_elems p = split_elems [] p"

fun join_slash :: "string list \<Rightarrow> string" where
  "join_slash [] = []"
| "join_slash [e] = e"
| "join_slash (e # es) = e @ ''/'' @ join_slash es"

definition clean_step :: "bool \<Rightarrow> string list \<Rightarrow> string \<Rightarrow> string list" where
  "clean_step rooted out e =
     (if e = ''.'' then out
      else if e = ''..''
      then (if out \<noteq> [] \<and> last out \<noteq> ''..'' then butlast out
            else if rooted then out
            else out @ [''..''])
      else out @ [e])"

definition Clean :: "string \<Rightarrow> string" where
  "Clean p =
     (if p = [] then ''.''
      else let rooted = (hd p = CHR ''/'');
               out = foldl (clean_step rooted) [] (path_elems p);
               s = (if rooted then ''/'' else []) @ join_slash out
           in if s = [] then ''.'' else s)"

definition Join :: "string list \<Rightarrow> string" where
  "Join elem =
     (case dropWhile (\<lambda>e. e = []) elem of
        [] \<Rightarrow> []
      | e # es \<Rightarrow> Clean (join_slash (e # es)))"

definition getGitDir :: "GitHttp \<Rightarrow> os_env \<Rightarrow> string \<Rightarrow> error + string" where
  "getGitDir g env file_path =
     (case (if ProjectRoot g = [] then env_Getwd env else Inr (ProjectRoot g)) of
        Inl err \<Rightarrow> Inl err
      | Inr root \<Rightarrow>
          (let f = Join [root, file_path]
           in if env_Stat env f = Stat_not_exist then Inl ErrNotExist else Inr f))"

text \<open>The two notions the traversal claim is stated with: a path has a \<^verbatim>\<open>..\<close>
  element, and a path is the root or lies below it.\<close>

definition has_dotdot :: "string \<Rightarrow> bool" where
  "has_dotdot p = (''..'' \<in> set (path_elems p))"

definition under_root :: "string \<Rightarrow> string \<Rightarrow> bool" where
  "under_root root p =
     (p = root \<or> prefix ((if root = ''/'' then [] else root) @ ''/'') p)"

text \<open>A file system in which \<^verbatim>\<open>/etc\<close> exists and nothing else does.\<close>

definition env_etc :: os_env where
  "env_etc = \<lparr>env_Getwd = Inr ''/'',
              env_Stat = (\<lambda>p. if p = ''/etc'' then Stat_ok else Stat_not_exist),
              env_Output = (\<lambda>bin dir args. [])\<rparr>"

section \<open>Access policy\<close>

definition gitCommand :: "GitHttp \<Rightarrow> os_env \<Rightarrow> string \<Rightarrow> string list \<Rightarrow> string" where
  "gitCommand g env dir args = env_Output env (GitBinPath g) dir args"

text \<open>\<^verbatim>\<open>out[0 : len(out)-1]\<close> panics when the command printed nothing.\<close>

definition getGitConfig :: "GitHttp \<Rightarrow> os_env \<Rightarrow> string \<Rightarrow> string \<Rightarrow> panic + string" where
  "getGitConfig g env config_name dir =
     (let out = gitCommand g env dir [''config'', config_name]
      in if out = [] then Inl SliceBoundsOutOfRange else Inr (butlast out))"

definition getConfigSetting :: "GitHttp \<Rightarrow> os_env \<Rightarrow> string \<Rightarrow> string \<Rightarrow> panic + bool" where
  "getConfigSetting g env service_name dir =
     (let service_name' = filter (\<lambda>c. c \<noteq> CHR ''-'') service_name
      in case getGitConfig g env (''http.'' @ service_name') dir of
           Inl p \<Rightarrow> Inl p
         | Inr setting \<Rightarrow>
             if service_name' = ''uploadpack'' then Inr (setting \<noteq> ''false'')
             else Inr (setting = ''true''))"

definition hasAccess :: "GitHttp \<Rightarrow> os_env \<Rightarrow> Request \<Rightarrow> string \<Rightarrow> string \<Rightarrow> bool \<Rightarrow> panic + bool" where
  "hasAccess g env r dir rpc check_content_type =
     (if check_content_type \<and>
         req_ContentType r \<noteq> ''application/x-git-'' @ rpc @ ''-request''
      then Inr False
      else if \<not> (rpc = ''upload-pack'' \<or> rpc = ''receive-pack'') then Inr False
      else if rpc = ''receive-pack'' then Inr (ReceivePack g)
      else if rpc = ''upload-pack'' then Inr (UploadPack g)
      else getConfigSetting g env rpc dir)"

text \<open>A repository without a setting: \<^verbatim>\<open>git config\<close> prints nothing.\<close>

definition env_unset :: os_env where
  "env_unset = \<lparr>env_Getwd = Inr ''/'',
                env_Stat = (\<lambda>p. Stat_ok),
                env_Output = (\<lambda>bin dir args. [])\<rparr>"

definition receive_request :: Request where
  "receive_request =
     \<lparr>req_Method = ''POST'', req_Path = ''/repo/git-receive-pack'', req_Proto = ''HTTP/1.1'',
      req_ContentType = ''application/x-git-receive-pack-request'',
      req_ContentEncoding = [], req_Body = ''0000''\<rparr>"

section \<open>Routing\<close>

text \<open>The patterns of \<^verbatim>\<open>routing.go\<close>; each ends with \<^verbatim>\<open>$\<close> and starts with the lazy
  group \<^verbatim>\<open>(.*?)\<close> that captures the repository.\<close>

definition route :: "regex \<Rightarrow> regex" where
  "route sfx = Seq (Grp 1 (Star False any_char)) (Seq sfx Eol)"

definition re_serviceRpcUpload :: regex where
  "re_serviceRpcUpload = route (Lit ''/git-upload-pack'')"

definition re_serviceRpcReceive :: regex where
  "re_serviceRpcReceive = route (Lit ''/git-receive-pack'')"

definition re_getInfoRefs :: regex where
  "re_getInfoRefs = route (Lit ''/info/refs'')"

definition re_getHead :: regex where
  "re_getHead = route (Lit ''/HEAD'')"

definition re_getAlternates :: regex where
  "re_getAlternates = route (Lit ''/objects/info/alternates'')"

definition re_getHttpAlternates :: regex where
  "re_getHttpAlternates = route (Lit ''/objects/info/http-alternates'')"

definition re_getInfoPacks :: regex where
  "re_getInfoPacks = route (Lit ''/objects/info/packs'')"

definition re_getInfoFile :: regex where
  "re_getInfoFile = route (Seq (Lit ''/objects/info/'') (Star True not_slash))"

definition re_getLooseObject :: regex where
  "re_getLooseObject =
     route (Seq (Lit ''/objects/'') (Seq (Rep 2 lower_hex) (Seq (Lit ''/'') (Rep 38 lower_hex))))"

definition re_getPackFile :: regex where
  "re_getPackFile =
     route (Seq (Lit ''/objects/pack/pack-'') (Seq (Rep 40 lower_hex) (Lit ''.pack'')))"

definition re_getIdxFile :: regex where
  "re_getIdxFile =
     route (Seq (Lit ''/objects/pack/pack-'') (Seq (Rep 40 lower_hex) (Lit ''.idx'')))"

definition service :: "string \<Rightarrow> handler \<Rightarrow> string \<Rightarrow> Service" where
  "service m h rpc = \<lparr>Method = m, Handler = h, Rpc = rpc\<rparr>"

text \<open>The entries of the map that \<open>services\<close> returns, in the order of the map
  literal. A Go map has no order: a \<^verbatim>\<open>range\<close> over it visits every entry once, in an
  order that the runtime chooses anew each time.\<close>

definition services :: "(regex \<times> Service) list" where
  "services =
     [(re_serviceRpcUpload, service ''POST'' H_serviceRpc ''upload-pack''),
      (re_serviceRpcReceive, service ''POST'' H_serviceRpc ''receive-pack''),
      (re_getInfoRefs, service ''GET'' H_getInfoRefs []),
      (re_getHead, service ''GET'' H_getTextFile []),
      (re_getAlternates, service ''GET'' H_getTextFile []),
      (re_getHttpAlternates, service ''GET'' H_getTextFile []),
      (re_getInfoPacks, service ''GET'' H_getInfoPacks []),
      (re_getInfoFile, service ''GET'' H_getTextFile []),
      (re_getLooseObject, service ''GET'' H_getLooseObject []),
      (re_getPackFile, service ''GET'' H_getPackFile []),
      (re_getIdxFile, service ''GET'' H_getIdxFile [])]"

text \<open>\<open>getService\<close> ranges over the map and returns at the first entry whose pattern
  matches; \<open>order\<close> is the order in which this range visits the entries.\<close>

fun getService :: "(regex \<times> Service) list \<Rightarrow> string \<Rightarrow> (string \<times> Service) option" where
  "getService [] path = None"
| "getService ((re, svc) # order) path =
     (case FindStringSubmatch re 1 path of
        Some m \<Rightarrow> Some (m ! 1, svc)
      | None \<Rightarrow> getService order path)"

text \<open>An order of visit in which the generic pattern \<^verbatim>\<open>/objects/info/[^/]*\<close> comes
  before the three specific ones.\<close>

definition order_generic_first :: "(regex \<times> Service) list" where
  "order_generic_first =
     [(re_getInfoFile, service ''GET'' H_getTextFile []),
      (re_serviceRpcUpload, service ''POST'' H_serviceRpc ''upload-pack''),
      (re_serviceRpcReceive, service ''POST'' H_serviceRpc ''receive-pack''),
      (re_getInfoRefs, service ''GET'' H_getInfoRefs []),
      (re_getHead, service ''GET'' H_getTextFile []),
      (re_getAlternates, service ''GET'' H_getTextFile []),
      (re_getHttpAlternates, service ''GET'' H_getTextFile []),
      (re_getInfoPacks, service ''GET'' H_getInfoPacks []),
      (re_getLooseObject, service ''GET'' H_getLooseObject []),
      (re_getPackFile, service ''GET'' H_getPackFile []),
      (re_getIdxFile, service ''GET'' H_getIdxFile [])]"









section \<open>The RPC handler\<close>



















section \<open>Packet-line framing: the length prefix\<close>

lemma upt16: "[0..<16] = [0,1,2,3,4,5,6,7,8,9,10,11,12,13,14,15]"
  by (simp add: upt_rec)

lemma hex_value_digit: "d < 16 \<Longrightarrow> hex_value (hex_digits ! d) = Some d"
proof -
  assume "d < 16"
  then have "d \<in> set [0..<16]" by simp
  then have "d \<in> {0,1,2,3,4,5,6,7,8,9,10,11,12,13,14,15}" unfolding upt16 by simp
  then show ?thesis
    by (auto simp: hex_value_def hex_digits_def upt16)
qed

lemma parse_hex_append:
  "parse_hex a (xs @ ys) = (case parse_hex a xs of None \<Rightarrow> None | Some b \<Rightarrow> parse_hex b ys)"
  by (induction xs arbitrary: a) (auto split: option.splits)

lemma parse_hex_FormatInt16:
  "parse_hex a (FormatInt16 n) = Some (a * 16 ^ length (FormatInt16 n) + n)"
proof (induction n arbitrary: a rule: FormatInt16.induct)
  case (1 n)
  show ?case
  proof (cases "n < 16")
    case True
    then show ?thesis by (simp add: FormatInt16.simps[of n] hex_value_digit)
  next
    case False
    have m: "n mod 16 < 16" by simp
    have "parse_hex a (FormatInt16 n) =
          parse_hex a (FormatInt16 (n div 16) @ [hex_digits ! (n mod 16)])"
      using False by (subst FormatInt16.simps) simp
    also have "\<dots> = Some (16 * (a * 16 ^ length (FormatInt16 (n div 16)) + n div 16) + n mod 16)"
      using "1.IH"[OF False] by (simp add: parse_hex_append hex_value_digit[OF m])
    also have "\<dots> = Some (a * 16 ^ length (FormatInt16 n) + n)"
    proof -
      have "length (FormatInt16 n) = Suc (length (FormatInt16 (n div 16)))"
        using False by (subst FormatInt16.simps) simp
      then show ?thesis by (simp add: algebra_simps)
    qed
    finally show ?thesis .
  qed
qed

lemma parse_hex_zeros: "parse_hex 0 (replicate k (CHR ''0'') @ s) = parse_hex 0 s"
  by (induction k) (auto simp: hex_value_def hex_digits_def upt16)

lemma FormatInt16_nonempty: "FormatInt16 n \<noteq> []"
  by (subst FormatInt16.simps) simp

lemma FormatInt16_length: "n < 16 ^ k \<Longrightarrow> 0 < k \<Longrightarrow> length (FormatInt16 n) \<le> k"
proof (induction n arbitrary: k rule: FormatInt16.induct)
  case (1 n)
  show ?case
  proof (cases "n < 16")
    case True
    then show ?thesis using "1.prems" by (simp add: FormatInt16.simps[of n])
  next
    case False
    then obtain j where k: "k = Suc j" using "1.prems" by (cases k) auto
    have "j \<noteq> 0" using False "1.prems" k by (cases j) auto
    moreover have "n div 16 < 16 ^ j"
      using "1.prems" k by (simp add: less_mult_imp_div_less mult.commute)
    ultimately have "length (FormatInt16 (n div 16)) \<le> j"
      using "1.IH"[OF False, of j] by simp
    then show ?thesis using False k by (subst FormatInt16.simps) simp
  qed
qed

lemma packet_header:
  assumes "length s < 65532"
  shows "\<exists>k. packetWrite s = replicate k (CHR ''0'') @ FormatInt16 (length s + 4) @ s
           \<and> k + length (FormatInt16 (length s + 4)) = 4"
proof -
  let ?h = "FormatInt16 (length s + 4)"
  have "length s + 4 < 16 ^ 4" using assms by simp
  then have le: "length ?h \<le> 4" by (rule FormatInt16_length) simp
  have ne: "0 < length ?h" using FormatInt16_nonempty by simp
  show ?thesis
  proof (cases "length ?h = 4")
    case True
    then show ?thesis by (intro exI[of _ 0]) (simp add: packetWrite_def Let_def)
  next
    case False
    then have "length ?h mod 4 = length ?h" "length ?h < 4" using le by auto
    then show ?thesis using ne
      by (intro exI[of _ "4 - length ?h"]) (simp add: packetWrite_def Let_def)
  qed
qed

text \<open>
  Claim C8. For every string \<open>s\<close> shorter than 65532 bytes, the first four characters
  of \<open>packetWrite s\<close> read as a lowercase hexadecimal number give \<open>length s + 4\<close>, and
  the bytes after them are exactly \<open>s\<close>; \<open>packetFlush\<close> is the four bytes \<^verbatim>\<open>0000\<close>.
\<close>

theorem packetWrite_roundtrip:
  assumes "length s < 65532"
  shows "decodeLength (packetWrite s) = Some (length s + 4)
       \<and> length (take 4 (packetWrite s)) = 4
       \<and> drop 4 (packetWrite s) = s
       \<and> packetFlush = ''0000''"
proof -
  from packet_header[OF assms] obtain k where
    pw: "packetWrite s = replicate k (CHR ''0'') @ FormatInt16 (length s + 4) @ s"
    and k: "k + length (FormatInt16 (length s + 4)) = 4" by blast
  have t: "take 4 (packetWrite s) = replicate k (CHR ''0'') @ FormatInt16 (length s + 4)"
    using pw k by simp
  have "parse_hex 0 (take 4 (packetWrite s)) = Some (length s + 4)"
    unfolding t by (simp add: parse_hex_zeros parse_hex_FormatInt16)
  moreover have "4 \<le> length (packetWrite s)" using pw k by simp
  ultimately have d: "decodeLength (packetWrite s) = Some (length s + 4)"
    by (simp add: decodeLength_def)
  have r: "drop 4 (packetWrite s) = s" using pw k by simp
  show ?thesis using d r t k by (simp add: packetFlush_def)
qed

theorem packetWrite_roundtrip_witness:
  "length ''# service=git-upload-pack\<newline>'' < 65532
   \<and> packetWrite ''# service=git-upload-pack\<newline>'' = ''001e# service=git-upload-pack\<newline>''
   \<and> decodeLength (packetWrite ''# service=git-upload-pack\<newline>'') = Some 30
   \<and> drop 4 (packetWrite ''# service=git-upload-pack\<newline>'') = ''# service=git-upload-pack\<newline>''"
proof -
  have h: "length ''# service=git-upload-pack\<newline>'' < 65532" by simp
  have e: "packetWrite ''# service=git-upload-pack\<newline>'' = ''001e# service=git-upload-pack\<newline>''"
    by code_simp
  from packetWrite_roundtrip[OF h] h e show ?thesis by simp
qed

section \<open>Matching the event patterns\<close>

lemma rep_iter_class:
  "length h = k \<Longrightarrow> list_all (in_class neg rs) h \<Longrightarrow>
   rep_iter (ms (Cls neg rs) n) k (h @ r, c) = [(r, c)]"
  by (induction h arbitrary: k) auto

lemma space_is_space: "\<not> in_class True space_ranges (CHR '' '')"
  by (simp add: in_class_def space_ranges_def in_range_def)

lemma cls_hit: "in_class neg rs x \<Longrightarrow> ms (Cls neg rs) n (x # r, c) = [(r, c)]"
  by simp

lemma cls_miss: "\<not> in_class neg rs x \<Longrightarrow> ms (Cls neg rs) n (x # r, c) = []"
  by simp

lemma lit1_hit: "ms (Lit [x]) n (x # r, c) = [(r, c)]"
  by simp

lemma lit1_miss: "y \<noteq> x \<Longrightarrow> ms (Lit [x]) n (y # r, c) = []"
  by simp

lemma seq_map:
  "concat (map (ms (Seq a b) n) sts) = concat (map (ms b n) (concat (map (ms a n) sts)))"
  by (induction sts) auto

lemma plus_then_space:
  "list_all (in_class True space_ranges) xs \<Longrightarrow> length xs < k \<Longrightarrow>
   concat (map (ms (Lit '' '') n)
     (star_iter True (ms (Cls True space_ranges) n) k (xs @ CHR '' '' # u, c))) = [(u, c)]"
proof (induction xs arbitrary: k)
  case Nil
  then obtain j where "k = Suc j" by (cases k) auto
  then show ?case
    by (simp add: cls_miss[OF space_is_space] lit1_hit del: ms.simps)
next
  case (Cons x xs)
  then obtain j where k: "k = Suc j" by (cases k) auto
  have x: "x \<noteq> CHR '' ''" "in_class True space_ranges x"
    using Cons.prems(1) space_is_space by auto
  have ih: "concat (map (ms (Lit '' '') n)
          (star_iter True (ms (Cls True space_ranges) n) j (xs @ CHR '' '' # u, c))) = [(u, c)]"
    using Cons.IH[of j] Cons.prems k by (simp del: ms.simps)
  show ?case unfolding k
    by (simp add: cls_hit[OF x(2)] lit1_miss[OF x(1)] ih del: ms.simps)
qed

lemma upload_match:
  assumes "tok \<noteq> []" "list_all (in_class True space_ranges) tok"
    "length h = 40" "list_all (in_class False hex_ranges) h"
    "n = length (tok @ '' '' @ h @ rest)"
  shows "ms uploadPackRegex n (tok @ '' '' @ h @ rest, []) = [(rest, [(1, h)])]"
proof -
  obtain x xs where tok: "tok = x # xs" using assms(1) by (cases tok) auto
  have xs: "list_all (in_class True space_ranges) xs" and x: "in_class True space_ranges x"
    using assms(2) tok by auto
  let ?t = "xs @ CHR '' '' # h @ rest"
  let ?P = "Seq non_space (Star True non_space)"
  let ?G = "Grp 1 (Rep 40 hex)"
  have p: "ms ?P n (x # ?t, []) = star_iter True (ms (Cls True space_ranges) n) (length ?t) (?t, [])"
    unfolding non_space_def by (simp add: cls_hit[OF x] del: ms.simps(2))
  have a: "concat (map (ms (Lit '' '') n) (ms ?P n (x # ?t, []))) = [(h @ rest, [])]"
    unfolding p by (rule plus_then_space[OF xs]) simp
  have b: "ms ?G n (h @ rest, []) = [(rest, [(1, h)])]"
    using assms(3,4) by (simp add: hex_def rep_iter_class del: ms.simps(2))
  have "ms uploadPackRegex n (x # ?t, []) = ms (Seq ?P (Seq (Lit '' '') ?G)) n (x # ?t, [])"
    unfolding uploadPackRegex_def using assms(5) tok by simp
  also have "\<dots> = concat (map (ms (Seq (Lit '' '') ?G) n) (ms ?P n (x # ?t, [])))"
    by simp
  also have "\<dots> = concat (map (ms ?G n) (concat (map (ms (Lit '' '') n) (ms ?P n (x # ?t, [])))))"
    by (rule seq_map)
  also have "\<dots> = [(rest, [(1, h)])]"
    unfolding a using b by simp
  finally show ?thesis using tok by simp
qed

lemma search_hit: "ms re n (s, []) = st # sts \<Longrightarrow> search re n s = Some (s, st)"
  by (cases s) auto

lemma upload_search_short: "length s < n \<Longrightarrow> search uploadPackRegex n s = None"
  by (induction s) (auto simp: uploadPackRegex_def)

lemma upload_all_short: "length s < n \<Longrightarrow> all_matches uploadPackRegex n s prev = []"
  by (subst all_matches.simps) (simp add: upload_search_short)

lemma upload_at_most_one: "length (all_matches uploadPackRegex (length s) s None) \<le> 1"
proof (cases "search uploadPackRegex (length s) s")
  case None
  then show ?thesis by (subst all_matches.simps) simp
next
  case (Some m)
  show ?thesis
  proof (cases "length (fst (snd m)) < length s")
    case True
    then show ?thesis using Some
      by (subst all_matches.simps) (simp add: upload_all_short)
  next
    case False
    then show ?thesis using Some
      by (subst all_matches.simps) (cases s; simp add: upload_all_short)
  qed
qed

lemma upload_find_all:
  assumes "tok \<noteq> []" "list_all (in_class True space_ranges) tok"
    "length h = 40" "list_all (in_class False hex_ranges) h"
  shows "FindAllStringSubmatch uploadPackRegex 1 (tok @ '' '' @ h @ rest) = [[tok @ '' '' @ h, h]]"
proof -
  let ?s = "tok @ '' '' @ h @ rest"
  have m: "ms uploadPackRegex (length ?s) (?s, []) = [(rest, [(1, h)])]"
    by (rule upload_match[OF assms]) simp
  have s: "search uploadPackRegex (length ?s) ?s = Some (?s, (rest, [(1, h)]))"
    by (rule search_hit[OF m])
  have r: "length rest < length ?s" by simp
  have "all_matches uploadPackRegex (length ?s) ?s None = [(?s, (rest, [(1, h)]))]"
    by (subst all_matches.simps) (simp only: s option.case fst_conv snd_conv r if_True upload_all_short[OF r])
  then show ?thesis
    by (simp add: FindAllStringSubmatch_def submatches_def)
qed

lemma search_sound:
  "search re n s = Some (s', st) \<Longrightarrow> suffix s' s \<and> (\<exists>sts. ms re n (s', []) = st # sts)"
proof (induction s)
  case Nil
  then show ?case by (auto split: list.splits)
next
  case (Cons x xs)
  then show ?case by (auto split: list.splits simp: suffix_Cons)
qed

lemma star_iter_results:
  assumes f: "\<And>s c. f (s, c) = (case s of [] \<Rightarrow> [] | x # xs \<Rightarrow> if P x then [(xs, c)] else [])"
  shows "st' \<in> set (star_iter g f k (s, c)) \<Longrightarrow>
         \<exists>pre. s = pre @ fst st' \<and> list_all P pre \<and> snd st' = c"
proof (induction k arbitrary: s)
  case 0
  then show ?case by auto
next
  case (Suc k)
  show ?case
  proof (cases "st' = (s, c)")
    case True
    then show ?thesis by auto
  next
    case False
    with Suc.prems obtain x xs where s: "s = x # xs" and x: "P x"
      and m: "st' \<in> set (star_iter g f k (xs, c))"
      by (cases s) (auto simp: Let_def f split: if_splits)
    from Suc.IH[OF m] obtain pre where "xs = pre @ fst st'" "list_all P pre" "snd st' = c"
      by auto
    then show ?thesis using s x by (intro exI[of _ "x # pre"]) auto
  qed
qed

lemma rep_iter_results:
  assumes f: "\<And>s c. f (s, c) = (case s of [] \<Rightarrow> [] | x # xs \<Rightarrow> if P x then [(xs, c)] else [])"
  shows "st' \<in> set (rep_iter f k (s, c)) \<Longrightarrow>
         \<exists>h. s = h @ fst st' \<and> length h = k \<and> list_all P h \<and> snd st' = c"
proof (induction k arbitrary: s)
  case 0
  then show ?case by auto
next
  case (Suc k)
  then obtain x xs where s: "s = x # xs" and x: "P x"
      and m: "st' \<in> set (rep_iter f k (xs, c))"
    by (cases s) (auto simp: f split: if_splits)
  from Suc.IH[OF m] obtain h where "xs = h @ fst st'" "length h = k" "list_all P h" "snd st' = c"
    by auto
  then show ?case using s x by (intro exI[of _ "x # h"]) auto
qed

lemma ms_cls: "ms (Cls neg rs) n (s, c) =
    (case s of [] \<Rightarrow> [] | x # xs \<Rightarrow> if in_class neg rs x then [(xs, c)] else [])"
  by (cases s) simp_all

lemma seq_mem:
  "st \<in> set (ms (Seq a b) n s0) \<longleftrightarrow> (\<exists>s1\<in>set (ms a n s0). st \<in> set (ms b n s1))"
  by auto

lemmas star_iter_class_results = star_iter_results[of "ms (Cls neg rs) n" "in_class neg rs", OF ms_cls] for neg rs n
lemmas rep_iter_class_results = rep_iter_results[of "ms (Cls neg rs) n" "in_class neg rs", OF ms_cls] for neg rs n

lemma upload_match_shape:
  assumes "st \<in> set (ms uploadPackRegex n (s, []))"
  shows "\<exists>tok h. s = tok @ '' '' @ h @ fst st \<and> tok \<noteq> [] \<and>
           list_all (in_class True space_ranges) tok \<and>
           length h = 40 \<and> list_all (in_class False hex_ranges) h"
proof -
  from assms[unfolded uploadPackRegex_def non_space_def hex_def seq_mem] obtain s0 s1 s2 where
    m0: "s0 \<in> set (ms Bol n (s, []))" and
    mp: "s1 \<in> set (ms (Seq (Cls True space_ranges) (Star True (Cls True space_ranges))) n s0)" and
    m2: "s2 \<in> set (ms (Lit '' '') n s1)" and
    m3: "st \<in> set (ms (Grp 1 (Rep 40 (Cls False hex_ranges))) n s2)"
    by blast
  from mp[unfolded seq_mem] obtain sa where
    ma: "sa \<in> set (ms (Cls True space_ranges) n s0)" and
    m1: "s1 \<in> set (ms (Star True (Cls True space_ranges)) n sa)"
    by blast
  from m0 have s0: "s0 = (s, [])" by (auto split: if_splits)
  from ma obtain x xs where s: "s = x # xs" and x: "in_class True space_ranges x"
    and sa: "sa = (xs, [])"
    unfolding s0 ms_cls by (cases s) (auto split: if_splits)
  from m1 have m1': "s1 \<in> set (star_iter True (ms (Cls True space_ranges) n) (length xs) (xs, []))"
    unfolding sa by (simp del: ms.simps(2))
  from star_iter_class_results[OF m1'] obtain pre where
    pre: "xs = pre @ fst s1" "list_all (in_class True space_ranges) pre" "snd s1 = []" by auto
  from m2 have s2: "fst s1 = '' '' @ fst s2" "snd s2 = snd s1"
    by (auto simp: prefix_def split: if_splits)
  from m3 obtain s3 where m3': "s3 \<in> set (rep_iter (ms (Cls False hex_ranges) n) 40 (fst s2, snd s2))"
    and st: "fst st = fst s3"
    by (cases s2) (auto simp del: ms.simps(2))
  from rep_iter_class_results[OF m3'] obtain h where
    h: "fst s2 = h @ fst s3" "length h = 40" "list_all (in_class False hex_ranges) h" by auto
  show ?thesis
    using s x pre s2 h st by (intro exI[of _ "x # pre"] exI[of _ h]) auto
qed

lemma upload_events_shape:
  assumes "FindAllStringSubmatch uploadPackRegex 1 payload \<noteq> []"
  shows "\<exists>tok h rest. payload = tok @ '' '' @ h @ rest \<and> tok \<noteq> [] \<and>
           list_all (in_class True space_ranges) tok \<and>
           length h = 40 \<and> list_all (in_class False hex_ranges) h"
proof -
  from assms have "all_matches uploadPackRegex (length payload) payload None \<noteq> []"
    by (simp add: FindAllStringSubmatch_def)
  then obtain s' st where s: "search uploadPackRegex (length payload) payload = Some (s', st)"
    by (subst (asm) all_matches.simps) (auto split: option.splits)
  from search_sound[OF s] have suf: "suffix s' payload"
    and m: "st \<in> set (ms uploadPackRegex (length payload) (s', []))" by auto
  have "s' = payload"
  proof (rule ccontr)
    assume "s' \<noteq> payload"
    with suf have "length s' < length payload"
      by (auto simp: suffix_def)
    then have "ms uploadPackRegex (length payload) (s', []) = []"
      by (simp add: uploadPackRegex_def)
    with m show False by simp
  qed
  with upload_match_shape[OF m] show ?thesis by blast
qed

text \<open>
  Claim C3, as amended. The pattern of upload-pack is anchored at the start of the
  payload, so no payload yields more than one Fetch event; a payload that begins with a
  token free of white space, one space and forty hexadecimal digits (as \<^verbatim>\<open>want a647...\<close>
  or \<^verbatim>\<open>0032want a647...\<close> does) yields exactly one Fetch event, which carries these
  forty digits, whatever follows, further \<^verbatim>\<open>want\<close> lines included; and a payload that
  does not begin so yields no event.
\<close>

theorem upload_pack_events:
  "(\<forall>dir payload. length (rpc_events ''upload-pack'' dir payload) \<le> 1) \<and>
   (\<forall>dir tok h rest.
      tok \<noteq> [] \<and> list_all (in_class True space_ranges) tok \<and>
      length h = 40 \<and> list_all (in_class False hex_ranges) h \<longrightarrow>
      rpc_events ''upload-pack'' dir (tok @ '' '' @ h @ rest) =
        [\<lparr>Type = FETCH, Commit = h, Dir = dir, Tag = [], Last = [], Branch = []\<rparr>]) \<and>
   (\<forall>dir payload.
      rpc_events ''upload-pack'' dir payload \<noteq> [] \<longrightarrow>
      (\<exists>tok h rest. payload = tok @ '' '' @ h @ rest \<and> tok \<noteq> [] \<and>
         list_all (in_class True space_ranges) tok \<and>
         length h = 40 \<and> list_all (in_class False hex_ranges) h))"
proof (intro conjI allI impI)
  fix dir payload
  show "length (rpc_events ''upload-pack'' dir payload) \<le> 1"
    using upload_at_most_one[of payload]
    by (simp add: rpc_events_def FindAllStringSubmatch_def)
next
  fix dir tok h rest
  assume a: "tok \<noteq> [] \<and> list_all (in_class True space_ranges) tok \<and>
      length h = 40 \<and> list_all (in_class False hex_ranges) h"
  then have "FindAllStringSubmatch uploadPackRegex 1 (tok @ '' '' @ h @ rest) = [[tok @ '' '' @ h, h]]"
    by (intro upload_find_all) auto
  then show "rpc_events ''upload-pack'' dir (tok @ '' '' @ h @ rest) =
        [\<lparr>Type = FETCH, Commit = h, Dir = dir, Tag = [], Last = [], Branch = []\<rparr>]"
    by (simp add: rpc_events_def fetch_event_def)
next
  fix dir payload
  assume "rpc_events ''upload-pack'' dir payload \<noteq> []"
  then have "FindAllStringSubmatch uploadPackRegex 1 payload \<noteq> []"
    by (simp add: rpc_events_def)
  then show "\<exists>tok h rest. payload = tok @ '' '' @ h @ rest \<and> tok \<noteq> [] \<and>
         list_all (in_class True space_ranges) tok \<and>
         length h = 40 \<and> list_all (in_class False hex_ranges) h"
    by (rule upload_events_shape)
qed

lemma hex_a647: "list_all (in_class False hex_ranges) ''a647ec2ea40ee9ca35d32232dc28de22b1537e00''"
  by (simp add: in_class_def hex_ranges_def in_range_def)

lemma tok_want: "list_all (in_class True space_ranges) ''want''"
  by (simp add: in_class_def space_ranges_def in_range_def)

theorem upload_pack_events_witness:
  "rpc_events ''upload-pack'' ''/srv/git/repo''
     ''want a647ec2ea40ee9ca35d32232dc28de22b1537e00 multi_ack\<newline>0000'' =
   [\<lparr>Type = FETCH, Commit = ''a647ec2ea40ee9ca35d32232dc28de22b1537e00'',
     Dir = ''/srv/git/repo'', Tag = [], Last = [], Branch = []\<rparr>]"
proof -
  have "''want'' \<noteq> [] \<and> list_all (in_class True space_ranges) ''want'' \<and>
        length ''a647ec2ea40ee9ca35d32232dc28de22b1537e00'' = 40 \<and>
        list_all (in_class False hex_ranges) ''a647ec2ea40ee9ca35d32232dc28de22b1537e00''"
    using hex_a647 tok_want by simp
  with upload_pack_events
  have "rpc_events ''upload-pack'' ''/srv/git/repo''
          (''want'' @ '' '' @ ''a647ec2ea40ee9ca35d32232dc28de22b1537e00'' @ '' multi_ack\<newline>0000'') =
        [\<lparr>Type = FETCH, Commit = ''a647ec2ea40ee9ca35d32232dc28de22b1537e00'',
          Dir = ''/srv/git/repo'', Tag = [], Last = [], Branch = []\<rparr>]"
    by blast
  then show ?thesis by simp
qed


text \<open>
  The claim as stated fails: a payload of two distinct \<^verbatim>\<open>want\<close> lines, the second of
  them \<^verbatim>\<open>want a647ec2ea40ee9ca35d32232dc28de22b1537e00\<close>, yields one Fetch event, for the
  first line, and none that carries the hash \<^verbatim>\<open>a647...\<close>.
\<close>

theorem upload_pack_two_wants_counterexample:
  "rpc_events ''upload-pack'' ''/srv/git/repo''
     ''want 92eef6dcb9cc198bc3ac6010c108fa482773f116\<newline>want a647ec2ea40ee9ca35d32232dc28de22b1537e00\<newline>'' =
   [\<lparr>Type = FETCH, Commit = ''92eef6dcb9cc198bc3ac6010c108fa482773f116'',
     Dir = ''/srv/git/repo'', Tag = [], Last = [], Branch = []\<rparr>]"
  by code_simp

text \<open>
  Claim C4, as amended. The pattern of receive-pack ends a ref name at a space, at
  \<^verbatim>\<open>00\<close> or at a NUL byte. The payload of forty zeros, a space,
  \<^verbatim>\<open>92eef6dcb9cc198bc3ac6010c108fa482773f116\<close>, a space and \<^verbatim>\<open>refs/heads/master\<close>,
  followed by one of these three terminators, yields exactly one Push event, with
  \<open>Last\<close> the forty zeros, \<open>Commit\<close> the hash and \<open>Branch\<close> \<^verbatim>\<open>master\<close>.
\<close>

theorem receive_pack_push_event:
  "rpc_events ''receive-pack'' dir
     (''0000000000000000000000000000000000000000 92eef6dcb9cc198bc3ac6010c108fa482773f116 refs/heads/master'' @ [CHR 0x00]) =
   [\<lparr>Type = PUSH, Commit = ''92eef6dcb9cc198bc3ac6010c108fa482773f116'', Dir = dir, Tag = [],
     Last = ''0000000000000000000000000000000000000000'', Branch = ''master''\<rparr>]
   \<and>
   rpc_events ''receive-pack'' dir
     ''0000000000000000000000000000000000000000 92eef6dcb9cc198bc3ac6010c108fa482773f116 refs/heads/master '' =
   [\<lparr>Type = PUSH, Commit = ''92eef6dcb9cc198bc3ac6010c108fa482773f116'', Dir = dir, Tag = [],
     Last = ''0000000000000000000000000000000000000000'', Branch = ''master''\<rparr>]
   \<and>
   rpc_events ''receive-pack'' dir
     ''0000000000000000000000000000000000000000 92eef6dcb9cc198bc3ac6010c108fa482773f116 refs/heads/master00'' =
   [\<lparr>Type = PUSH, Commit = ''92eef6dcb9cc198bc3ac6010c108fa482773f116'', Dir = dir, Tag = [],
     Last = ''0000000000000000000000000000000000000000'', Branch = ''master''\<rparr>]"
proof (intro conjI)
  show "rpc_events ''receive-pack'' dir
     (''0000000000000000000000000000000000000000 92eef6dcb9cc198bc3ac6010c108fa482773f116 refs/heads/master'' @ [CHR 0x00]) =
   [\<lparr>Type = PUSH, Commit = ''92eef6dcb9cc198bc3ac6010c108fa482773f116'', Dir = dir, Tag = [],
     Last = ''0000000000000000000000000000000000000000'', Branch = ''master''\<rparr>]"
    by code_simp
  show "rpc_events ''receive-pack'' dir
     ''0000000000000000000000000000000000000000 92eef6dcb9cc198bc3ac6010c108fa482773f116 refs/heads/master '' =
   [\<lparr>Type = PUSH, Commit = ''92eef6dcb9cc198bc3ac6010c108fa482773f116'', Dir = dir, Tag = [],
     Last = ''0000000000000000000000000000000000000000'', Branch = ''master''\<rparr>]"
    by code_simp
  show "rpc_events ''receive-pack'' dir
     ''0000000000000000000000000000000000000000 92eef6dcb9cc198bc3ac6010c108fa482773f116 refs/heads/master00'' =
   [\<lparr>Type = PUSH, Commit = ''92eef6dcb9cc198bc3ac6010c108fa482773f116'', Dir = dir, Tag = [],
     Last = ''0000000000000000000000000000000000000000'', Branch = ''master''\<rparr>]"
    by code_simp
qed

text \<open>
  The claim as stated fails: the payload that ends with \<^verbatim>\<open>refs/heads/master\<close>, with
  no terminator after the ref name, matches nowhere and yields no event.
\<close>

theorem receive_pack_unterminated_counterexample:
  "rpc_events ''receive-pack'' ''/srv/git/repo''
     ''0000000000000000000000000000000000000000 92eef6dcb9cc198bc3ac6010c108fa482773f116 refs/heads/master'' = []
   \<and>
   rpc_events ''receive-pack'' ''/srv/git/repo''
     ''0000000000000000000000000000000000000000 92eef6dcb9cc198bc3ac6010c108fa482773f116 refs/heads/master'' \<noteq>
   [\<lparr>Type = PUSH, Commit = ''92eef6dcb9cc198bc3ac6010c108fa482773f116'', Dir = ''/srv/git/repo'',
     Tag = [], Last = ''0000000000000000000000000000000000000000'', Branch = ''master''\<rparr>]"
proof -
  have "rpc_events ''receive-pack'' ''/srv/git/repo''
     ''0000000000000000000000000000000000000000 92eef6dcb9cc198bc3ac6010c108fa482773f116 refs/heads/master'' = []"
    by code_simp
  then show ?thesis by simp
qed

lemma flush_re_match:
  "ms flush_re n (s, c) \<noteq> [] \<Longrightarrow> length s = n \<and> s = ''0000''"
  by (auto simp: flush_re_def prefix_def split: if_splits)

lemma flush_only:
  assumes "search flush_re (length p) p \<noteq> None"
  shows "p = ''0000''"
proof -
  from assms obtain s' st where s: "search flush_re (length p) p = Some (s', st)" by auto
  from search_sound[OF s] have suf: "suffix s' p" and m: "ms flush_re (length p) (s', []) \<noteq> []"
    by auto
  from flush_re_match[OF m] have "length s' = length p" "s' = ''0000''" by auto
  with suf show ?thesis by (auto simp: suffix_def)
qed


text \<open>
  Claim C5. The alternative \<^verbatim>\<open>^(0000)$\<close> matches in no payload but the flush line
  \<^verbatim>\<open>0000\<close> itself, and there the match is not skipped: its groups 1 to 4 are empty,
  group 3 is not \<^verbatim>\<open>heads\<close>, and the loop publishes a Tag event with an empty commit, an
  empty previous hash and an empty tag name.
\<close>

theorem receive_pack_flush_event:
  "search flush_re (length payload) payload \<noteq> None \<longrightarrow>
     payload = ''0000'' \<and>
     rpc_events ''receive-pack'' dir payload =
       [\<lparr>Type = TAG, Commit = [], Dir = dir, Tag = [], Last = [], Branch = []\<rparr>]"
proof
  assume "search flush_re (length payload) payload \<noteq> None"
  then have p: "payload = ''0000''" by (rule flush_only)
  have "rpc_events ''receive-pack'' dir ''0000'' =
       [\<lparr>Type = TAG, Commit = [], Dir = dir, Tag = [], Last = [], Branch = []\<rparr>]"
    by code_simp
  with p show "payload = ''0000'' \<and>
     rpc_events ''receive-pack'' dir payload =
       [\<lparr>Type = TAG, Commit = [], Dir = dir, Tag = [], Last = [], Branch = []\<rparr>]"
    by simp
qed

theorem receive_pack_flush_event_witness:
  "search flush_re (length ''0000'') ''0000'' \<noteq> None \<and>
   rpc_events ''receive-pack'' ''/srv/git/repo'' ''0000'' =
     [\<lparr>Type = TAG, Commit = [], Dir = ''/srv/git/repo'', Tag = [], Last = [], Branch = []\<rparr>]"
proof -
  have h: "search flush_re (length ''0000'') ''0000'' \<noteq> None"
    by (simp add: flush_re_def)
  from receive_pack_flush_event[of "''0000''" "''/srv/git/repo''"] h show ?thesis by simp
qed
section \<open>Repository resolution: where a prefix resolves\<close>

lemma split_elems_append:
  "split_elems cur (a @ CHR ''/'' # b) = split_elems cur a @ split_elems [] b"
  by (induction a arbitrary: cur) auto

lemma path_elems_join: "path_elems (a @ CHR ''/'' # b) = path_elems a @ path_elems b"
  by (simp add: path_elems_def split_elems_append)

lemma foldl_clean_no_dotdot:
  "''..'' \<notin> set es \<Longrightarrow>
   foldl (clean_step rooted) out es = out @ filter (\<lambda>e. e \<noteq> ''.'') es"
  by (induction es arbitrary: out) (auto simp: clean_step_def)

lemma join_slash_append:
  "xs \<noteq> [] \<Longrightarrow> ys \<noteq> [] \<Longrightarrow> join_slash (xs @ ys) = join_slash xs @ ''/'' @ join_slash ys"
  by (induction xs rule: join_slash.induct) (auto simp: neq_Nil_conv)

lemma Clean_rooted:
  "p \<noteq> [] \<Longrightarrow> hd p = CHR ''/'' \<Longrightarrow>
   Clean p = ''/'' @ join_slash (foldl (clean_step True) [] (path_elems p))"
  by (simp add: Clean_def Let_def)

lemma Join_root:
  "root \<noteq> [] \<Longrightarrow> Join [root, p] = Clean (root @ ''/'' @ p)"
  by (simp add: Join_def)

lemma Join_under_root:
  assumes "root \<noteq> []" "hd root = CHR ''/''" "\<not> has_dotdot p"
  shows "under_root (Clean root) (Join [root, p])"
proof -
  let ?R = "foldl (clean_step True) [] (path_elems root)"
  let ?N = "filter (\<lambda>e. e \<noteq> ''.'') (path_elems p)"
  have c: "Clean root = ''/'' @ join_slash ?R"
    using assms(1,2) by (rule Clean_rooted)
  have "Join [root, p] = Clean (root @ ''/'' @ p)"
    using assms(1) by (rule Join_root)
  also have "\<dots> = ''/'' @ join_slash (foldl (clean_step True) [] (path_elems (root @ ''/'' @ p)))"
    using assms(1,2) by (intro Clean_rooted) auto
  also have "foldl (clean_step True) [] (path_elems (root @ ''/'' @ p)) = ?R @ ?N"
    using assms(3) by (simp add: path_elems_join foldl_clean_no_dotdot has_dotdot_def)
  finally have j: "Join [root, p] = ''/'' @ join_slash (?R @ ?N)" .
  show ?thesis
  proof (cases "?N = [] \<or> ?R = []")
    case True
    then show ?thesis
      unfolding j c by (auto simp: under_root_def)
  next
    case False
    then have "join_slash (?R @ ?N) = join_slash ?R @ ''/'' @ join_slash ?N"
      by (intro join_slash_append) auto
    then show ?thesis
      unfolding j c by (auto simp: under_root_def)
  qed
qed


text \<open>
  Claim C1, as amended. \<open>getGitDir\<close> has no traversal guard. Its result is either an
  error (the path does not exist, or the working directory could not be read) or the
  path \<^verbatim>\<open>path.Join(root, prefix)\<close>, cleaned lexically, which \<^verbatim>\<open>os.Stat\<close> did not report
  missing; the root is \<open>ProjectRoot\<close> or, when that is empty, the working directory. For
  a rooted root and a prefix without a \<^verbatim>\<open>..\<close> element this path is the
  cleaned root or lies below it; nothing of the kind holds for a prefix with \<^verbatim>\<open>..\<close>
  elements.
\<close>

theorem getGitDir_resolution:
  "(getGitDir g env p = Inr f \<longrightarrow>
      (\<exists>root. (if ProjectRoot g = [] then env_Getwd env else Inr (ProjectRoot g)) = Inr root \<and>
              f = Join [root, p] \<and> env_Stat env f \<noteq> Stat_not_exist)) \<and>
   (getGitDir g env p = Inl e \<longrightarrow> e = ErrNotExist \<or> (ProjectRoot g = [] \<and> env_Getwd env = Inl e)) \<and>
   (\<forall>root. (if ProjectRoot g = [] then env_Getwd env else Inr (ProjectRoot g)) = Inr root \<and>
      root \<noteq> [] \<and> hd root = CHR ''/'' \<and> \<not> has_dotdot p \<and>
      getGitDir g env p = Inr f \<longrightarrow> under_root (Clean root) f)"
proof (intro conjI impI allI)
  assume "getGitDir g env p = Inr f"
  then show "\<exists>root. (if ProjectRoot g = [] then env_Getwd env else Inr (ProjectRoot g)) = Inr root \<and>
              f = Join [root, p] \<and> env_Stat env f \<noteq> Stat_not_exist"
    by (auto simp: getGitDir_def Let_def split: sum.splits if_splits)
next
  assume "getGitDir g env p = Inl e"
  then show "e = ErrNotExist \<or> (ProjectRoot g = [] \<and> env_Getwd env = Inl e)"
    by (auto simp: getGitDir_def Let_def split: sum.splits if_splits)
next
  fix root
  assume a: "(if ProjectRoot g = [] then env_Getwd env else Inr (ProjectRoot g)) = Inr root \<and>
      root \<noteq> [] \<and> hd root = CHR ''/'' \<and> \<not> has_dotdot p \<and>
      getGitDir g env p = Inr f"
  then have "f = Join [root, p]"
    by (auto simp: getGitDir_def Let_def split: if_splits)
  then show "under_root (Clean root) f"
    using a Join_under_root by simp
qed

theorem getGitDir_resolution_witness:
  "getGitDir (New ''/srv/git'') env_unset ''/team/repo.git'' = Inr ''/srv/git/team/repo.git'' \<and>
   under_root ''/srv/git'' ''/srv/git/team/repo.git'' \<and>
   getGitDir (New ''/srv/git'') env_etc ''/team/repo.git'' = Inl ErrNotExist"
proof -
  have n: "getGitDir (New ''/srv/git'') env_etc ''/team/repo.git'' = Inl ErrNotExist"
    using getGitDir_resolution[of "New ''/srv/git''" env_etc "''/team/repo.git''" _ ErrNotExist]
    by (simp add: path_elems_def getGitDir_def New_def env_etc_def Join_def
      Clean_def clean_step_def Let_def)
  have a: "getGitDir (New ''/srv/git'') env_unset ''/team/repo.git'' = Inr ''/srv/git/team/repo.git''"
    by (simp add: path_elems_def getGitDir_def New_def env_unset_def Join_def
      Clean_def clean_step_def Let_def)
  have b: "(if ProjectRoot (New ''/srv/git'') = [] then env_Getwd env_unset
            else Inr (ProjectRoot (New ''/srv/git''))) = Inr ''/srv/git'' \<and>
      ''/srv/git'' \<noteq> [] \<and> hd ''/srv/git'' = CHR ''/'' \<and> \<not> has_dotdot ''/team/repo.git''"
    by (simp add: New_def has_dotdot_def path_elems_def)
  have c: "Clean ''/srv/git'' = ''/srv/git''"
    by (simp add: Clean_def path_elems_def clean_step_def Let_def)
  have "under_root (Clean ''/srv/git'') ''/srv/git/team/repo.git''"
    using getGitDir_resolution[of "New ''/srv/git''" env_unset "''/team/repo.git''"
        "''/srv/git/team/repo.git''"] a b
    by blast
  then show ?thesis using a c n by simp
qed

text \<open>
  The claim as stated fails: with the root \<^verbatim>\<open>/srv/git\<close> the prefix \<^verbatim>\<open>/../../etc\<close>
  resolves to \<^verbatim>\<open>/etc\<close>, outside the root, when that directory exists.
\<close>

theorem getGitDir_traversal_counterexample:
  "has_dotdot ''/../../etc'' \<and>
   getGitDir (New ''/srv/git'') env_etc ''/../../etc'' = Inr ''/etc'' \<and>
   \<not> under_root ''/srv/git'' ''/etc''"
  by (simp add: has_dotdot_def path_elems_def getGitDir_def New_def env_etc_def Join_def
      Clean_def clean_step_def under_root_def Let_def)

section \<open>Access policy: what decides\<close>

text \<open>
  Claim C2, as amended. For upload-pack and receive-pack, once the content type has
  passed, \<open>hasAccess\<close> returns the global flag of the handler (\<open>UploadPack\<close>,
  \<open>ReceivePack\<close>; \<open>New\<close> sets both), whatever the configuration of the repository:
  the fallback to \<open>getConfigSetting\<close> is never reached. \<open>getConfigSetting\<close> itself, when
  \<^verbatim>\<open>git config\<close> prints a value and a final newline, allows upload-pack unless the value
  is exactly \<^verbatim>\<open>false\<close> and allows receive-pack only if the value is exactly \<^verbatim>\<open>true\<close>.
\<close>

theorem hasAccess_global_flags:
  "((rpc = ''upload-pack'' \<or> rpc = ''receive-pack'') \<and>
    (check_content_type \<longrightarrow> req_ContentType r = ''application/x-git-'' @ rpc @ ''-request'') \<longrightarrow>
      hasAccess g env r dir rpc check_content_type =
        Inr (if rpc = ''receive-pack'' then ReceivePack g else UploadPack g)) \<and>
   (\<forall>env'. hasAccess g env' r dir rpc check_content_type =
            hasAccess g env r dir rpc check_content_type) \<and>
   (gitCommand g env dir [''config'', ''http.uploadpack''] = setting @ [c] \<longrightarrow>
      getConfigSetting g env ''upload-pack'' dir = Inr (setting \<noteq> ''false'')) \<and>
   (gitCommand g env dir [''config'', ''http.receivepack''] = setting @ [c] \<longrightarrow>
      getConfigSetting g env ''receive-pack'' dir = Inr (setting = ''true''))"
  by (auto simp: hasAccess_def getConfigSetting_def getGitConfig_def)

theorem hasAccess_global_flags_witness:
  "hasAccess (New ''/srv/git'') env_unset receive_request ''/srv/git/repo'' ''receive-pack'' True = Inr True
   \<and> getConfigSetting (New ''/srv/git'')
        \<lparr>env_Getwd = Inr ''/'', env_Stat = (\<lambda>p. Stat_ok),
         env_Output = (\<lambda>bin dir args. ''false\<newline>'')\<rparr> ''upload-pack'' ''/srv/git/repo'' = Inr False
   \<and> getConfigSetting (New ''/srv/git'')
        \<lparr>env_Getwd = Inr ''/'', env_Stat = (\<lambda>p. Stat_ok),
         env_Output = (\<lambda>bin dir args. ''true\<newline>'')\<rparr> ''receive-pack'' ''/srv/git/repo'' = Inr True"
  using hasAccess_global_flags[of "''receive-pack''" True receive_request "New ''/srv/git''" env_unset
          "''/srv/git/repo''" "''true''" "CHR 0x0A"]
        hasAccess_global_flags[of "''upload-pack''" False receive_request "New ''/srv/git''"
          "\<lparr>env_Getwd = Inr ''/'', env_Stat = (\<lambda>p. Stat_ok),
            env_Output = (\<lambda>bin dir args. ''false\<newline>'')\<rparr>" "''/srv/git/repo''" "''false''" "CHR 0x0A"]
        hasAccess_global_flags[of "''receive-pack''" False receive_request "New ''/srv/git''"
          "\<lparr>env_Getwd = Inr ''/'', env_Stat = (\<lambda>p. Stat_ok),
            env_Output = (\<lambda>bin dir args. ''true\<newline>'')\<rparr>" "''/srv/git/repo''" "''true''" "CHR 0x0A"]
  by (simp add: receive_request_def New_def gitCommand_def)


text \<open>
  The claim as stated fails: for a repository without a setting, a handler made by
  \<open>New\<close> allows receive-pack.
\<close>

theorem hasAccess_default_counterexample:
  "gitCommand (New ''/srv/git'') env_unset ''/srv/git/repo'' [''config'', ''http.receivepack''] = []
   \<and> hasAccess (New ''/srv/git'') env_unset receive_request ''/srv/git/repo'' ''receive-pack'' True = Inr True"
  by (simp add: hasAccess_def New_def env_unset_def receive_request_def gitCommand_def)

section \<open>Routing\<close>














text \<open>
  Claim C6, on the request path \<^verbatim>\<open>/repo/objects/info/packs\<close>. The path matches the
  pattern of \<open>getInfoPacks\<close> and the generic pattern \<^verbatim>\<open>/objects/info/[^/]*\<close>. The entries
  are kept in a map, and the range over it may visit the generic pattern first: then
  the text-file handler is selected, not the info-packs handler. Visited in the order
  of the map literal, the same path selects the info-packs handler.
\<close>

theorem getService_order_dependent:
  "getService order_generic_first ''/repo/objects/info/packs'' =
     Some (''/repo'', service ''GET'' H_getTextFile []) \<and>
   getService services ''/repo/objects/info/packs'' =
     Some (''/repo'', service ''GET'' H_getInfoPacks []) \<and>
   set order_generic_first = set services \<and>
   length order_generic_first = length services"
proof (intro conjI)
  show "getService order_generic_first ''/repo/objects/info/packs'' =
     Some (''/repo'', service ''GET'' H_getTextFile [])"
    by code_simp
  show "getService services ''/repo/objects/info/packs'' =
     Some (''/repo'', service ''GET'' H_getInfoPacks [])"
    by code_simp
  show "set order_generic_first = set services"
    by (auto simp: order_generic_first_def services_def)
  show "length order_generic_first = length services"
    by (simp add: order_generic_first_def services_def)
qed

section \<open>The RPC handler: events and the subprocess\<close>















end
